theory Spec2Isabelle
  imports Main "HOL-Library.AList"
begin

section \<open>Documents, references and change events\<close>

text \<open>
  The mirror (\<^verbatim>\<open>src/index.js\<close>, class \<^verbatim>\<open>LocalMongoDbCollectionMirror\<close>) keeps
  JavaScript objects in a \<^verbatim>\<open>Map\<close>. A document is an object with named fields; what the
  \<^verbatim>\<open>Map\<close> holds, and what \<^verbatim>\<open>find\<close> and \<^verbatim>\<open>get\<close> hand out, is a reference to the
  object, so the objects live in an explicit heap and a reference is an address in it.
\<close>

datatype jsval =
    JUndefined
  | JNull
  | JBool bool
  | JNum int
  | JStr string
  | JArr "jsval list"
  | JObj "(string \<times> jsval) list"

type_synonym document = "(string \<times> jsval) list"

type_synonym ref = nat

text \<open>Property access \<^verbatim>\<open>doc.name\<close>: a missing property reads as \<^verbatim>\<open>undefined\<close>.\<close>

definition field :: "string \<Rightarrow> document \<Rightarrow> jsval" where
  "field name doc = (case map_of doc name of None \<Rightarrow> JUndefined | Some v \<Rightarrow> v)"

text \<open>
  A change stream event as \<^verbatim>\<open>changeHandler\<close> reads it: \<^verbatim>\<open>_id\<close> (the resume token),
  \<^verbatim>\<open>operationType\<close>, \<^verbatim>\<open>documentKey\<close> and \<^verbatim>\<open>fullDocument\<close>, where \<open>None\<close> stands for
  both \<^verbatim>\<open>null\<close> and \<^verbatim>\<open>undefined\<close> (the two values \<^verbatim>\<open>setCachedValue\<close> tests for).
  The type parameter is what a full document is: a \<open>document\<close> on the wire, a \<open>ref\<close> once the
  driver has built the object.
\<close>

record 'd change =
  change_id :: jsval
  operationType :: string
  documentKey :: document
  fullDocument :: "'d option"

section \<open>The mirror and its environment\<close>

datatype 'k error =
    CollectionNoLongerValid
  | MirrorClosed
  | NoSuchKey 'k
  | TypeError string

datatype promise = Pending | Fulfilled | Rejected string

text \<open>
  The two listeners the class itself registers on \<^verbatim>\<open>'ready'\<close>: the \<^verbatim>\<open>resolve\<close> of the promise
  made by the \<open>n\<close>-th call of \<^verbatim>\<open>waitUntilReady\<close>, and the arrow function of the \<open>n\<close>-th call
  of \<^verbatim>\<open>close\<close> that closes the stream.
\<close>

datatype listener = ResolveWaiter nat | CloseStreamOnReady nat

datatype 'k jsarg = AUndefined | AMirror | AKey 'k | AChange "ref change"

text \<open>
  One call of \<^verbatim>\<open>mirror.emit\<close>: the event name and the arguments every listener is called
  with. \<open>valid_at_emit\<close> records what \<^verbatim>\<open>isValid()\<close> returned at that moment; the code never
  reads it.
\<close>

record 'k notification =
  event_name :: string
  event_args :: "'k jsarg list"
  valid_at_emit :: bool

datatype timestamp = Timestamp int int

record change_stream =
  startAtOperationTime :: timestamp
  watch_fullDocument :: string

text \<open>
  The fields of the object (\<open>cache\<close>, \<open>changeStream\<close>, \<open>invalid\<close>, \<open>closed\<close>, \<open>lastOpId\<close>;
  an unset flag is \<^verbatim>\<open>undefined\<close>, which every test in the code treats as false), the
  listeners of the \<^verbatim>\<open>EventEmitter\<close>, and the part of the environment the methods act on:
  the heap of document objects, the promise of \<^verbatim>\<open>collection.find({}).toArray()\<close>, the
  promises returned by \<^verbatim>\<open>waitUntilReady()\<close> and \<^verbatim>\<open>close()\<close> in call order, the calls of
  \<^verbatim>\<open>stream.close()\<close> that have not settled yet, and whether the driver has released the
  subscription. \<open>constructedAt\<close> is the wall-clock time in milliseconds at which the
  constructor ran and issued the enumeration; the code never reads it.
\<close>

record 'k mirror =
  heap :: "ref \<Rightarrow> document"
  nextRef :: ref
  cache :: "('k \<times> ref) list"
  changeStream :: "change_stream option"
  invalid :: bool
  closed :: bool
  lastOpId :: jsval
  listeners :: "(string \<times> listener) list"
  emitted :: "'k notification list"
  snapshot :: promise
  waiters :: "promise list"
  closers :: "promise list"
  streamClosing :: "nat list"
  released :: bool
  constructedAt :: int

definition alloc :: "document \<Rightarrow> 'k mirror \<Rightarrow> ref \<times> 'k mirror" where
  "alloc d m = (nextRef m, m\<lparr>heap := (heap m)(nextRef m := d), nextRef := Suc (nextRef m)\<rparr>)"

text \<open>What a caller holding a reference can do: change the object it points to.\<close>

definition mutate :: "ref \<Rightarrow> document \<Rightarrow> 'k mirror \<Rightarrow> 'k mirror" where
  "mutate r d m = m\<lparr>heap := (heap m)(r := d)\<rparr>"

definition settle :: "promise \<Rightarrow> nat \<Rightarrow> promise list \<Rightarrow> promise list" where
  "settle p n ps = (if n < length ps \<and> ps ! n = Pending then ps[n := p] else ps)"

subsection \<open>State queries\<close>

definition isReady :: "'k mirror \<Rightarrow> bool" where
  "isReady m = (changeStream m \<noteq> None \<and> \<not> invalid m \<and> \<not> closed m)"

definition isValid :: "'k mirror \<Rightarrow> bool" where
  "isValid m = (\<not> invalid m)"

definition isClosed :: "'k mirror \<Rightarrow> bool" where
  "isClosed m = closed m"

subsection \<open>Emitting\<close>

definition closeStream :: "nat \<Rightarrow> 'k mirror \<Rightarrow> 'k mirror" where
  "closeStream n m = m\<lparr>streamClosing := streamClosing m @ [n]\<rparr>"

fun call_listener :: "listener \<Rightarrow> 'k mirror \<Rightarrow> 'k mirror" where
  "call_listener (ResolveWaiter n) m = m\<lparr>waiters := settle Fulfilled n (waiters m)\<rparr>"
| "call_listener (CloseStreamOnReady n) m = closeStream n m"

definition emit :: "string \<Rightarrow> 'k jsarg list \<Rightarrow> 'k mirror \<Rightarrow> 'k mirror" where
  "emit eventName args m =
     foldl (\<lambda>m' l. call_listener l m')
       (m\<lparr>emitted := emitted m @
            [\<lparr>event_name = eventName, event_args = args, valid_at_emit = isValid m\<rparr>]\<rparr>)
       (map snd (filter (\<lambda>nl. fst nl = eventName) (listeners m)))"

definition doEmit :: "string \<Rightarrow> 'k jsarg list \<Rightarrow> 'k mirror \<Rightarrow> 'k mirror" where
  "doEmit eventName args m = (if isValid m then emit eventName args m else m)"

subsection \<open>The cache\<close>

text \<open>
  \<^verbatim>\<open>JSON.stringify\<close> belongs to the platform, not to the repository: the development takes
  it as the parameter \<open>stringify\<close>, from the identity value to whatever keys the \<^verbatim>\<open>Map\<close>.
  \<^verbatim>\<open>Map.set\<close> overwrites in place or appends, \<^verbatim>\<open>Map.delete\<close> removes: \<open>AList.update\<close>
  and \<open>AList.delete\<close>. \<^verbatim>\<open>setCachedValue\<close> is a plain function of a strict-mode module
  called without a receiver, so the \<^verbatim>\<open>this\<close> it passes on to \<^verbatim>\<open>doEmit\<close> is \<^verbatim>\<open>undefined\<close>.
\<close>

definition cacheKey :: "(jsval \<Rightarrow> 'k) \<Rightarrow> document \<Rightarrow> 'k" where
  "cacheKey stringify doc = stringify (field ''_id'' doc)"

definition setCachedValue ::
  "(jsval \<Rightarrow> 'k) \<Rightarrow> document \<Rightarrow> ref option \<Rightarrow> 'k mirror \<Rightarrow> 'k mirror" where
  "setCachedValue stringify keyDoc doc m =
     (let docKey = cacheKey stringify keyDoc;
          m' = (case doc of
                  Some r \<Rightarrow> m\<lparr>cache := AList.update docKey r (cache m)\<rparr>
                | None \<Rightarrow> m\<lparr>cache := AList.delete docKey (cache m)\<rparr>)
      in doEmit ''changed'' [AUndefined, AKey docKey] m')"

definition changeHandler :: "(jsval \<Rightarrow> 'k) \<Rightarrow> ref change \<Rightarrow> 'k mirror \<Rightarrow> 'k mirror" where
  "changeHandler stringify c m =
     (let m1 = m\<lparr>lastOpId := change_id c\<rparr> in
      if operationType c = ''delete'' \<or> operationType c = ''insert''
         \<or> operationType c = ''replace'' \<or> operationType c = ''update''
      then setCachedValue stringify (documentKey c) (fullDocument c) m1
      else if operationType c = ''invalidate''
      then (doEmit ''invalidated'' [AMirror, AChange c] m1)\<lparr>invalid := True\<rparr>
      else m1)"

subsection \<open>Queries\<close>

definition assertState :: "'k mirror \<Rightarrow> 'k error + unit" where
  "assertState m =
     (if invalid m then Inl CollectionNoLongerValid
      else if closed m then Inl MirrorClosed
      else Inr ())"

text \<open>
  \<^verbatim>\<open>sift\<close> is the predicate library: the parameter \<open>sift\<close>, from a query to a predicate on
  documents. \<^verbatim>\<open>find\<close> pushes the cached values themselves onto its result.
\<close>

definition find_mirror ::
  "('q \<Rightarrow> document \<Rightarrow> bool) \<Rightarrow> 'q \<Rightarrow> 'k mirror \<Rightarrow> 'k error + ref list" where
  "find_mirror sift query m =
     (case assertState m of
        Inl e \<Rightarrow> Inl e
      | Inr _ \<Rightarrow> Inr (filter (\<lambda>r. sift query (heap m r)) (map snd (cache m))))"

definition get_mirror :: "(jsval \<Rightarrow> 'k) \<Rightarrow> jsval \<Rightarrow> 'k mirror \<Rightarrow> 'k error + ref" where
  "get_mirror stringify key m =
     (let docKey = stringify key in
      case map_of (cache m) docKey of
        None \<Rightarrow> Inl (NoSuchKey docKey)
      | Some r \<Rightarrow> Inr r)"

text \<open>
  The methods the class body defines, and the ones it inherits from \<^verbatim>\<open>EventEmitter\<close>.
  Calling a property that neither defines throws a \<^verbatim>\<open>TypeError\<close>.
\<close>

definition own_methods :: "string list" where
  "own_methods = [''constructor'', ''changeHandler'', ''close'', ''find'', ''get'',
     ''isReady'', ''isValid'', ''isClosed'', ''waitUntilReady'']"

definition EventEmitter_methods :: "string list" where
  "EventEmitter_methods = [''addListener'', ''emit'', ''eventNames'', ''getMaxListeners'',
     ''listenerCount'', ''listeners'', ''off'', ''on'', ''once'', ''prependListener'',
     ''prependOnceListener'', ''rawListeners'', ''removeAllListeners'', ''removeListener'',
     ''setMaxListeners'']"

definition lookup_method :: "string \<Rightarrow> 'k error + string" where
  "lookup_method name =
     (if name \<in> set own_methods \<or> name \<in> set EventEmitter_methods then Inr name
      else Inl (TypeError (name @ '' is not a function'')))"

subsection \<open>Calls and callbacks\<close>

definition waitUntilReady :: "'k mirror \<Rightarrow> 'k mirror" where
  "waitUntilReady m =
     (if changeStream m = None
      then m\<lparr>waiters := waiters m @ [Pending],
             listeners := listeners m @ [(''ready'', ResolveWaiter (length (waiters m)))]\<rparr>
      else m\<lparr>waiters := waiters m @ [Fulfilled]\<rparr>)"

definition close :: "'k mirror \<Rightarrow> 'k mirror" where
  "close m =
     (let n = length (closers m);
          m1 = m\<lparr>closers := closers m @ [Pending]\<rparr>
      in if changeStream m \<noteq> None then closeStream n m1
         else m1\<lparr>listeners := listeners m1 @ [(''ready'', CloseStreamOnReady n)]\<rparr>)"

definition buildChangeStream :: "timestamp \<Rightarrow> change_stream" where
  "buildChangeStream t = \<lparr>startAtOperationTime = t, watch_fullDocument = ''updateLookup''\<rparr>"

text \<open>
  The constructor: the fields it sets, and the enumeration it issues at time \<open>t0\<close>.
\<close>

definition construct :: "int \<Rightarrow> 'k mirror" where
  "construct t0 =
     \<lparr>heap = (\<lambda>_. []), nextRef = 0, cache = [], changeStream = None, invalid = False,
      closed = False, lastOpId = JUndefined, listeners = [], emitted = [],
      snapshot = Pending, waiters = [], closers = [], streamClosing = [], released = False,
      constructedAt = t0\<rparr>"

text \<open>
  The \<^verbatim>\<open>then\<close> callback of the constructor, run with the enumerated documents when the
  clock (\<^verbatim>\<open>Date.now()\<close>, in milliseconds) reads \<open>now\<close>.
\<close>

definition load_doc :: "(jsval \<Rightarrow> 'k) \<Rightarrow> 'k mirror \<Rightarrow> document \<Rightarrow> 'k mirror" where
  "load_doc stringify m d =
     (case alloc d m of (r, m') \<Rightarrow> setCachedValue stringify d (Some r) m')"

definition snapshot_then :: "(jsval \<Rightarrow> 'k) \<Rightarrow> document list \<Rightarrow> int \<Rightarrow> 'k mirror \<Rightarrow> 'k mirror" where
  "snapshot_then stringify docs now m =
     (let m1 = foldl (load_doc stringify) m docs;
          m2 = m1\<lparr>changeStream := Some (buildChangeStream (Timestamp 0 (now div 1000 - 30)))\<rparr>
      in doEmit ''ready'' [AMirror] m2)"

text \<open>
  The callback is not one step for a listener: \<^verbatim>\<open>setCachedValue\<close> emits \<^verbatim>\<open>'changed'\<close> after
  each \<^verbatim>\<open>cache.set\<close>, before \<^verbatim>\<open>this.changeStream\<close> is assigned, so a listener a caller has
  registered on \<^verbatim>\<open>'changed'\<close> runs inside the loop and can query the mirror there.
  \<open>load_state stringify m docs k\<close> is the mirror when the first \<open>k\<close> documents have been
  stored (\<open>m\<close> is the mirror when the callback starts): the state in which the listeners of
  the \<open>k\<close>-th \<^verbatim>\<open>'changed'\<close> run, and with \<open>k = length docs\<close> the \<open>m1\<close> of \<open>snapshot_then\<close>.
\<close>

definition load_state :: "(jsval \<Rightarrow> 'k) \<Rightarrow> 'k mirror \<Rightarrow> document list \<Rightarrow> nat \<Rightarrow> 'k mirror" where
  "load_state stringify m docs k = foldl (load_doc stringify) m (take k docs)"

text \<open>The stream delivers an event: the driver builds the objects and calls the handler.\<close>

definition deliver :: "(jsval \<Rightarrow> 'k) \<Rightarrow> document change \<Rightarrow> 'k mirror \<Rightarrow> 'k mirror" where
  "deliver stringify c m =
     (case fullDocument c of
        None \<Rightarrow>
          changeHandler stringify
            \<lparr>change_id = change_id c, operationType = operationType c,
             documentKey = documentKey c, fullDocument = None\<rparr> m
      | Some d \<Rightarrow>
          (case alloc d m of (r, m') \<Rightarrow>
             changeHandler stringify
               \<lparr>change_id = change_id c, operationType = operationType c,
                documentKey = documentKey c, fullDocument = Some r\<rparr> m'))"

text \<open>
  \<^verbatim>\<open>stream.close().then(resolve).catch(reject)\<close>, followed by
  \<^verbatim>\<open>.then(() => this.closed = true)\<close>: when the driver has released the subscription the
  flag is set and the promise \<^verbatim>\<open>close()\<close> returned is fulfilled; when the driver fails, the
  promise is rejected and the flag stays.
\<close>

definition stream_close_resolved :: "nat \<Rightarrow> 'k mirror \<Rightarrow> 'k mirror" where
  "stream_close_resolved n m =
     m\<lparr>streamClosing := remove1 n (streamClosing m), released := True,
       closers := settle Fulfilled n (closers m), closed := True\<rparr>"

definition stream_close_rejected :: "nat \<Rightarrow> string \<Rightarrow> 'k mirror \<Rightarrow> 'k mirror" where
  "stream_close_rejected n e m =
     m\<lparr>streamClosing := remove1 n (streamClosing m),
       closers := settle (Rejected e) n (closers m)\<rparr>"

text \<open>
  What can happen to a mirror, one at a time as the single thread of the platform has it:
  a caller calls \<^verbatim>\<open>waitUntilReady()\<close> or \<^verbatim>\<open>close()\<close>; the enumeration settles (once); the
  open stream delivers an event; a pending \<^verbatim>\<open>stream.close()\<close> settles. An event that
  cannot happen in the current state (a promise settling twice, a stream that does not
  exist delivering) changes nothing.
\<close>

datatype event =
    CallWaitUntilReady
  | CallClose
  | SnapshotResolved "document list" int
  | SnapshotRejected string
  | FeedChange "document change"
  | StreamCloseResolved nat
  | StreamCloseRejected nat string

fun step :: "(jsval \<Rightarrow> 'k) \<Rightarrow> event \<Rightarrow> 'k mirror \<Rightarrow> 'k mirror" where
  "step stringify CallWaitUntilReady m = waitUntilReady m"
| "step stringify CallClose m = close m"
| "step stringify (SnapshotResolved docs now) m =
     (if snapshot m = Pending
      then snapshot_then stringify docs now (m\<lparr>snapshot := Fulfilled\<rparr>) else m)"
| "step stringify (SnapshotRejected e) m =
     (if snapshot m = Pending then m\<lparr>snapshot := Rejected e\<rparr> else m)"
| "step stringify (FeedChange c) m =
     (if changeStream m \<noteq> None \<and> \<not> released m then deliver stringify c m else m)"
| "step stringify (StreamCloseResolved n) m =
     (if n \<in> set (streamClosing m) then stream_close_resolved n m else m)"
| "step stringify (StreamCloseRejected n e) m =
     (if n \<in> set (streamClosing m) then stream_close_rejected n e m else m)"

definition run :: "(jsval \<Rightarrow> 'k) \<Rightarrow> event list \<Rightarrow> 'k mirror \<Rightarrow> 'k mirror" where
  "run stringify evs m = foldl (\<lambda>m' e. step stringify e m') m evs"

text \<open>
  For examples: what \<^verbatim>\<open>JSON.stringify\<close> gives on a string without characters to escape
  (the string in double quotes), and \<^verbatim>\<open>"null"\<close> as a placeholder elsewhere.
\<close>

definition stringify_plain :: "jsval \<Rightarrow> string" where
  "stringify_plain v = (case v of JStr s \<Rightarrow> [CHR 0x22] @ s @ [CHR 0x22] | _ \<Rightarrow> ''null'')"



section \<open>Invariants of the reachable states\<close>

text \<open>
  Three facts that hold of \<open>construct t0\<close> and are kept by every \<open>step\<close>: about what has
  been emitted, about the time before the stream exists, and about closing.
\<close>

definition emit_inv :: "'k mirror \<Rightarrow> bool" where
  "emit_inv m =
     ((invalid m \<or> filter (\<lambda>n. event_name n = ''invalidated'') (emitted m) = [])
      \<and> length (filter (\<lambda>n. event_name n = ''invalidated'') (emitted m)) \<le> 1
      \<and> list_all valid_at_emit (emitted m))"

definition init_inv :: "'k mirror \<Rightarrow> bool" where
  "init_inv m =
     ((changeStream m = None \<longrightarrow>
         \<not> invalid m \<and> \<not> closed m \<and> \<not> released m \<and> streamClosing m = [] \<and> cache m = []
         \<and> emitted m = [] \<and> list_all (\<lambda>p. p = Pending) (waiters m)
         \<and> list_all (\<lambda>p. p = Pending) (closers m))
      \<and> (changeStream m \<noteq> None \<longrightarrow> snapshot m = Fulfilled))"

definition close_inv :: "'k mirror \<Rightarrow> bool" where
  "close_inv m =
     ((closed m \<longrightarrow> released m)
      \<and> (\<forall>n < length (closers m). closers m ! n = Fulfilled \<longrightarrow> released m))"

text \<open>
  The feed starts no later than the moment the enumeration was issued: the seconds of the
  \<^verbatim>\<open>startAtOperationTime\<close> the stream was opened with, against \<open>constructedAt\<close>.
\<close>

definition feed_start_ms :: "'k mirror \<Rightarrow> int option" where
  "feed_start_ms m =
     (case changeStream m of
        None \<Rightarrow> None
      | Some cs \<Rightarrow> (case startAtOperationTime cs of Timestamp lo secs \<Rightarrow> Some (secs * 1000)))"

definition feed_starts_before_enumeration :: "'k mirror \<Rightarrow> bool" where
  "feed_starts_before_enumeration m =
     (case feed_start_ms m of None \<Rightarrow> False | Some t \<Rightarrow> t \<le> constructedAt m)"

text \<open>The documents of the README's and the tests' examples.\<close>

definition doc_abc :: document where
  "doc_abc = [(''_id'', JStr ''abc''), (''foo'', JStr ''bar'')]"

definition doc_abc2 :: document where
  "doc_abc2 = [(''_id'', JStr ''abc''), (''foo'', JStr ''bar2'')]"

definition doc_def :: document where
  "doc_def = [(''_id'', JStr ''def''), (''bazz'', JObj [(''waldo'', JStr ''plugh'')])]"

text \<open>Events of the examples, as the stream sends them and as the handler receives them.\<close>

definition ev_insert_abc :: "document change" where
  "ev_insert_abc = \<lparr>change_id = JNum 1, operationType = ''insert'',
     documentKey = [(''_id'', JStr ''abc'')], fullDocument = Some doc_abc\<rparr>"

definition ev_invalidate :: "document change" where
  "ev_invalidate = \<lparr>change_id = JNum 3, operationType = ''invalidate'',
     documentKey = [], fullDocument = None\<rparr>"

definition ref_invalidate :: "ref change" where
  "ref_invalidate = \<lparr>change_id = JNum 3, operationType = ''invalidate'',
     documentKey = [], fullDocument = None\<rparr>"




section \<open>What emitting leaves alone\<close>

lemmas eval_defs =
  run_def construct_def waitUntilReady_def close_def closeStream_def snapshot_then_def
  load_doc_def alloc_def setCachedValue_def changeHandler_def deliver_def doEmit_def emit_def
  isValid_def cacheKey_def field_def stringify_plain_def buildChangeStream_def
  stream_close_resolved_def stream_close_rejected_def settle_def Let_def



lemma call_listener_frame:
  "cache (call_listener l m) = cache m"
  "heap (call_listener l m) = heap m"
  "nextRef (call_listener l m) = nextRef m"
  "changeStream (call_listener l m) = changeStream m"
  "invalid (call_listener l m) = invalid m"
  "closed (call_listener l m) = closed m"
  "lastOpId (call_listener l m) = lastOpId m"
  "listeners (call_listener l m) = listeners m"
  "emitted (call_listener l m) = emitted m"
  "snapshot (call_listener l m) = snapshot m"
  "closers (call_listener l m) = closers m"
  "released (call_listener l m) = released m"
  "constructedAt (call_listener l m) = constructedAt m"
  by (cases l; simp add: closeStream_def)+

lemma call_listeners_frame:
  "cache (foldl (\<lambda>m' l. call_listener l m') m ls) = cache m"
  "heap (foldl (\<lambda>m' l. call_listener l m') m ls) = heap m"
  "nextRef (foldl (\<lambda>m' l. call_listener l m') m ls) = nextRef m"
  "changeStream (foldl (\<lambda>m' l. call_listener l m') m ls) = changeStream m"
  "invalid (foldl (\<lambda>m' l. call_listener l m') m ls) = invalid m"
  "closed (foldl (\<lambda>m' l. call_listener l m') m ls) = closed m"
  "lastOpId (foldl (\<lambda>m' l. call_listener l m') m ls) = lastOpId m"
  "listeners (foldl (\<lambda>m' l. call_listener l m') m ls) = listeners m"
  "emitted (foldl (\<lambda>m' l. call_listener l m') m ls) = emitted m"
  "snapshot (foldl (\<lambda>m' l. call_listener l m') m ls) = snapshot m"
  "closers (foldl (\<lambda>m' l. call_listener l m') m ls) = closers m"
  "released (foldl (\<lambda>m' l. call_listener l m') m ls) = released m"
  "constructedAt (foldl (\<lambda>m' l. call_listener l m') m ls) = constructedAt m"
  by (induction ls arbitrary: m; simp add: call_listener_frame)+

lemma emit_frame:
  "cache (emit n a m) = cache m"
  "heap (emit n a m) = heap m"
  "nextRef (emit n a m) = nextRef m"
  "changeStream (emit n a m) = changeStream m"
  "invalid (emit n a m) = invalid m"
  "closed (emit n a m) = closed m"
  "lastOpId (emit n a m) = lastOpId m"
  "listeners (emit n a m) = listeners m"
  "snapshot (emit n a m) = snapshot m"
  "closers (emit n a m) = closers m"
  "released (emit n a m) = released m"
  "constructedAt (emit n a m) = constructedAt m"
  by (simp_all add: emit_def call_listeners_frame)

lemma emit_emitted:
  "emitted (emit n a m) = emitted m @ [\<lparr>event_name = n, event_args = a, valid_at_emit = isValid m\<rparr>]"
  by (simp add: emit_def call_listeners_frame)

lemma doEmit_frame:
  "cache (doEmit n a m) = cache m"
  "heap (doEmit n a m) = heap m"
  "nextRef (doEmit n a m) = nextRef m"
  "changeStream (doEmit n a m) = changeStream m"
  "invalid (doEmit n a m) = invalid m"
  "closed (doEmit n a m) = closed m"
  "lastOpId (doEmit n a m) = lastOpId m"
  "listeners (doEmit n a m) = listeners m"
  "snapshot (doEmit n a m) = snapshot m"
  "closers (doEmit n a m) = closers m"
  "released (doEmit n a m) = released m"
  "constructedAt (doEmit n a m) = constructedAt m"
  by (simp_all add: doEmit_def emit_frame)

lemma setCachedValue_cache:
  "cache (setCachedValue stringify keyDoc doc m) =
     (case doc of Some r \<Rightarrow> AList.update (cacheKey stringify keyDoc) r (cache m)
               | None \<Rightarrow> AList.delete (cacheKey stringify keyDoc) (cache m))"
  by (simp add: setCachedValue_def Let_def doEmit_frame split: option.split)


section \<open>The operations, field by field\<close>

lemma doEmit_emitted:
  "emitted (doEmit n a m) =
     (if invalid m then emitted m
      else emitted m @ [\<lparr>event_name = n, event_args = a, valid_at_emit = True\<rparr>])"
  by (simp add: doEmit_def emit_emitted isValid_def)

lemma setCachedValue_frame:
  "heap (setCachedValue s kd d m) = heap m"
  "nextRef (setCachedValue s kd d m) = nextRef m"
  "changeStream (setCachedValue s kd d m) = changeStream m"
  "invalid (setCachedValue s kd d m) = invalid m"
  "closed (setCachedValue s kd d m) = closed m"
  "lastOpId (setCachedValue s kd d m) = lastOpId m"
  "listeners (setCachedValue s kd d m) = listeners m"
  "snapshot (setCachedValue s kd d m) = snapshot m"
  "closers (setCachedValue s kd d m) = closers m"
  "released (setCachedValue s kd d m) = released m"
  "constructedAt (setCachedValue s kd d m) = constructedAt m"
  by (simp_all add: setCachedValue_def Let_def doEmit_frame split: option.split)

lemma setCachedValue_emitted:
  "emitted (setCachedValue s kd d m) =
     (if invalid m then emitted m
      else emitted m @ [\<lparr>event_name = ''changed'',
             event_args = [AUndefined, AKey (cacheKey s kd)], valid_at_emit = True\<rparr>])"
  by (simp add: setCachedValue_def Let_def doEmit_emitted split: option.split)

lemma changeHandler_frame:
  "heap (changeHandler s c m) = heap m"
  "nextRef (changeHandler s c m) = nextRef m"
  "changeStream (changeHandler s c m) = changeStream m"
  "closed (changeHandler s c m) = closed m"
  "listeners (changeHandler s c m) = listeners m"
  "snapshot (changeHandler s c m) = snapshot m"
  "closers (changeHandler s c m) = closers m"
  "released (changeHandler s c m) = released m"
  "constructedAt (changeHandler s c m) = constructedAt m"
  by (simp_all add: changeHandler_def Let_def setCachedValue_frame doEmit_frame)

lemma changeHandler_invalid:
  "invalid (changeHandler s c m) = (invalid m \<or> operationType c = ''invalidate'')"
  by (simp add: changeHandler_def Let_def setCachedValue_frame)

lemma changeHandler_emitted:
  "emitted (changeHandler s c m) =
     (if invalid m then emitted m
      else if operationType c = ''delete'' \<or> operationType c = ''insert''
              \<or> operationType c = ''replace'' \<or> operationType c = ''update''
      then emitted m @ [\<lparr>event_name = ''changed'',
             event_args = [AUndefined, AKey (cacheKey s (documentKey c))], valid_at_emit = True\<rparr>]
      else if operationType c = ''invalidate''
      then emitted m @ [\<lparr>event_name = ''invalidated'',
             event_args = [AMirror, AChange c], valid_at_emit = True\<rparr>]
      else emitted m)"
  by (simp add: changeHandler_def Let_def setCachedValue_emitted doEmit_emitted)

lemma load_doc_frame:
  "changeStream (load_doc s m d) = changeStream m"
  "invalid (load_doc s m d) = invalid m"
  "closed (load_doc s m d) = closed m"
  "listeners (load_doc s m d) = listeners m"
  "snapshot (load_doc s m d) = snapshot m"
  "closers (load_doc s m d) = closers m"
  "released (load_doc s m d) = released m"
  "constructedAt (load_doc s m d) = constructedAt m"
  by (simp_all add: load_doc_def alloc_def setCachedValue_frame)

lemma load_doc_emitted:
  "emitted (load_doc s m d) =
     (if invalid m then emitted m
      else emitted m @ [\<lparr>event_name = ''changed'',
             event_args = [AUndefined, AKey (cacheKey s d)], valid_at_emit = True\<rparr>])"
  by (simp add: load_doc_def alloc_def setCachedValue_emitted)

lemma load_docs_frame:
  "changeStream (foldl (load_doc s) m ds) = changeStream m"
  "invalid (foldl (load_doc s) m ds) = invalid m"
  "closed (foldl (load_doc s) m ds) = closed m"
  "listeners (foldl (load_doc s) m ds) = listeners m"
  "snapshot (foldl (load_doc s) m ds) = snapshot m"
  "closers (foldl (load_doc s) m ds) = closers m"
  "released (foldl (load_doc s) m ds) = released m"
  "constructedAt (foldl (load_doc s) m ds) = constructedAt m"
  by (induction ds arbitrary: m; simp add: load_doc_frame)+

lemma load_docs_emitted:
  "emitted (foldl (load_doc s) m ds) =
     (if invalid m then emitted m
      else emitted m @ map (\<lambda>d. \<lparr>event_name = ''changed'',
             event_args = [AUndefined, AKey (cacheKey s d)], valid_at_emit = True\<rparr>) ds)"
  by (induction ds arbitrary: m) (simp_all add: load_doc_emitted load_doc_frame)

lemma snapshot_then_frame:
  "invalid (snapshot_then s ds now m) = invalid m"
  "closed (snapshot_then s ds now m) = closed m"
  "listeners (snapshot_then s ds now m) = listeners m"
  "snapshot (snapshot_then s ds now m) = snapshot m"
  "closers (snapshot_then s ds now m) = closers m"
  "released (snapshot_then s ds now m) = released m"
  "constructedAt (snapshot_then s ds now m) = constructedAt m"
  by (simp_all add: snapshot_then_def Let_def doEmit_frame load_docs_frame)

lemma snapshot_then_changeStream:
  "changeStream (snapshot_then s ds now m) =
     Some (buildChangeStream (Timestamp 0 (now div 1000 - 30)))"
  by (simp add: snapshot_then_def Let_def doEmit_frame)

lemma snapshot_then_emitted:
  "emitted (snapshot_then s ds now m) =
     (if invalid m then emitted m
      else emitted m @ map (\<lambda>d. \<lparr>event_name = ''changed'',
             event_args = [AUndefined, AKey (cacheKey s d)], valid_at_emit = True\<rparr>) ds
           @ [\<lparr>event_name = ''ready'', event_args = [AMirror], valid_at_emit = True\<rparr>])"
  by (simp add: snapshot_then_def Let_def doEmit_emitted load_docs_emitted load_docs_frame)

lemma deliver_frame:
  "changeStream (deliver s c m) = changeStream m"
  "closed (deliver s c m) = closed m"
  "listeners (deliver s c m) = listeners m"
  "snapshot (deliver s c m) = snapshot m"
  "closers (deliver s c m) = closers m"
  "released (deliver s c m) = released m"
  "constructedAt (deliver s c m) = constructedAt m"
  by (simp_all add: deliver_def alloc_def changeHandler_frame split: option.split)

lemma deliver_invalid:
  "invalid (deliver s c m) = (invalid m \<or> operationType c = ''invalidate'')"
  by (simp add: deliver_def alloc_def changeHandler_invalid split: option.split)

lemma deliver_emitted_invalid:
  "invalid m \<Longrightarrow> emitted (deliver s c m) = emitted m"
  by (simp add: deliver_def alloc_def changeHandler_emitted split: option.split)

lemma emit_inv_cong:
  "invalid m' = invalid m \<Longrightarrow> emitted m' = emitted m \<Longrightarrow> emit_inv m' = emit_inv m"
  by (simp add: emit_inv_def)

lemma emit_inv_changeHandler: "emit_inv m \<Longrightarrow> emit_inv (changeHandler s c m)"
  by (auto simp: emit_inv_def changeHandler_emitted changeHandler_invalid)

lemma emit_inv_deliver: "emit_inv m \<Longrightarrow> emit_inv (deliver s c m)"
proof (cases "fullDocument c")
  case None
  assume "emit_inv m"
  then show ?thesis using None by (simp add: deliver_def emit_inv_changeHandler)
next
  case (Some d)
  assume a: "emit_inv m"
  have "emit_inv (snd (alloc d m))"
    using a by (simp add: alloc_def emit_inv_def)
  then show ?thesis using Some
    by (auto simp: deliver_def emit_inv_changeHandler split: prod.split)
qed

lemma emit_inv_snapshot_then: "emit_inv m \<Longrightarrow> emit_inv (snapshot_then s ds now m)"
  by (auto simp: emit_inv_def snapshot_then_emitted snapshot_then_frame list_all_iff
           filter_empty_conv)

lemma emit_inv_step: "emit_inv m \<Longrightarrow> emit_inv (step s e m)"
proof (cases e)
  case CallWaitUntilReady
  assume "emit_inv m"
  then show ?thesis using CallWaitUntilReady by (simp add: waitUntilReady_def emit_inv_def)
next
  case CallClose
  assume "emit_inv m"
  then show ?thesis using CallClose
    by (simp add: close_def closeStream_def Let_def emit_inv_def)
next
  case (SnapshotResolved ds now)
  assume a: "emit_inv m"
  have "emit_inv (m\<lparr>snapshot := Fulfilled\<rparr>)" using a by (simp add: emit_inv_def)
  then show ?thesis using SnapshotResolved a by (simp add: emit_inv_snapshot_then)
next
  case (SnapshotRejected err)
  assume "emit_inv m"
  then show ?thesis using SnapshotRejected by (simp add: emit_inv_def)
next
  case (FeedChange c)
  assume "emit_inv m"
  then show ?thesis using FeedChange by (simp add: emit_inv_deliver)
next
  case (StreamCloseResolved n)
  assume "emit_inv m"
  then show ?thesis using StreamCloseResolved
    by (simp add: stream_close_resolved_def emit_inv_def)
next
  case (StreamCloseRejected n err)
  assume "emit_inv m"
  then show ?thesis using StreamCloseRejected
    by (simp add: stream_close_rejected_def emit_inv_def)
qed

lemma run_snoc: "run s (evs @ [e]) m = step s e (run s evs m)"
  by (simp add: run_def)

lemma run_append: "run s (evs @ evs') m = run s evs' (run s evs m)"
  by (simp add: run_def)

lemma emit_inv_run: "emit_inv m \<Longrightarrow> emit_inv (run s evs m)"
  by (induction evs rule: rev_induct) (simp_all add: run_snoc emit_inv_step, simp add: run_def)

lemma emit_inv_construct: "emit_inv (construct t0)"
  by (simp add: emit_inv_def construct_def)

lemma invalid_step: "invalid m \<Longrightarrow> invalid (step s e m) \<and> emitted (step s e m) = emitted m"
  by (cases e)
     (simp_all add: waitUntilReady_def close_def closeStream_def Let_def snapshot_then_frame
        snapshot_then_emitted deliver_invalid deliver_emitted_invalid
        stream_close_resolved_def stream_close_rejected_def)

lemma invalid_run: "invalid m \<Longrightarrow> invalid (run s evs m) \<and> emitted (run s evs m) = emitted m"
proof (induction evs rule: rev_induct)
  case Nil
  then show ?case by (simp add: run_def)
next
  case (snoc e evs)
  then show ?case using invalid_step [of "run s evs m" s e] by (simp add: run_snoc)
qed

lemma init_inv_construct: "init_inv (construct t0)"
  by (simp add: init_inv_def construct_def)

lemma init_inv_step: "init_inv m \<Longrightarrow> init_inv (step s e m)"
proof (cases e)
  case CallWaitUntilReady
  assume "init_inv m"
  then show ?thesis using CallWaitUntilReady by (simp add: waitUntilReady_def init_inv_def)
next
  case CallClose
  assume "init_inv m"
  then show ?thesis using CallClose
    by (simp add: close_def closeStream_def Let_def init_inv_def)
next
  case (SnapshotResolved ds now)
  assume "init_inv m"
  then show ?thesis using SnapshotResolved
    by (simp add: init_inv_def snapshot_then_changeStream snapshot_then_frame)
next
  case (SnapshotRejected err)
  assume "init_inv m"
  then show ?thesis using SnapshotRejected by (auto simp: init_inv_def)
next
  case (FeedChange c)
  assume "init_inv m"
  then show ?thesis using FeedChange by (auto simp: init_inv_def deliver_frame)
next
  case (StreamCloseResolved n)
  assume "init_inv m"
  then show ?thesis using StreamCloseResolved
    by (auto simp: stream_close_resolved_def init_inv_def)
next
  case (StreamCloseRejected n err)
  assume "init_inv m"
  then show ?thesis using StreamCloseRejected
    by (auto simp: stream_close_rejected_def init_inv_def)
qed

lemma init_inv_run: "init_inv m \<Longrightarrow> init_inv (run s evs m)"
  by (induction evs rule: rev_induct) (simp_all add: run_snoc init_inv_step, simp add: run_def)

lemma settle_length: "length (settle p n ps) = length ps"
  by (simp add: settle_def)

lemma settle_nth:
  "k < length ps \<Longrightarrow>
   settle p n ps ! k = (if k = n \<and> ps ! n = Pending then p else ps ! k)"
  by (simp add: settle_def nth_list_update)

lemma close_inv_construct: "close_inv (construct t0)"
  by (simp add: close_inv_def construct_def)

lemma close_inv_step: "close_inv m \<Longrightarrow> close_inv (step s e m)"
proof (cases e)
  case CallWaitUntilReady
  assume "close_inv m"
  then show ?thesis using CallWaitUntilReady by (simp add: waitUntilReady_def close_inv_def)
next
  case CallClose
  assume "close_inv m"
  then show ?thesis using CallClose
    by (auto simp: close_def closeStream_def Let_def close_inv_def nth_append)
next
  case (SnapshotResolved ds now)
  assume "close_inv m"
  then show ?thesis using SnapshotResolved by (simp add: close_inv_def snapshot_then_frame)
next
  case (SnapshotRejected err)
  assume "close_inv m"
  then show ?thesis using SnapshotRejected by (simp add: close_inv_def)
next
  case (FeedChange c)
  assume "close_inv m"
  then show ?thesis using FeedChange by (auto simp: close_inv_def deliver_frame)
next
  case (StreamCloseResolved n)
  assume "close_inv m"
  then show ?thesis using StreamCloseResolved
    by (simp add: stream_close_resolved_def close_inv_def)
next
  case (StreamCloseRejected n err)
  assume "close_inv m"
  then show ?thesis using StreamCloseRejected
    by (auto simp: stream_close_rejected_def close_inv_def settle_length settle_nth
             split: if_splits)
qed

lemma close_inv_run: "close_inv m \<Longrightarrow> close_inv (run s evs m)"
  by (induction evs rule: rev_induct) (simp_all add: run_snoc close_inv_step, simp add: run_def)

lemma listeners_step: "x \<in> set (listeners m) \<Longrightarrow> x \<in> set (listeners (step s e m))"
  by (cases e)
     (simp_all add: waitUntilReady_def close_def closeStream_def Let_def snapshot_then_frame
        deliver_frame stream_close_resolved_def stream_close_rejected_def)

lemma listeners_run: "x \<in> set (listeners m) \<Longrightarrow> x \<in> set (listeners (run s evs m))"
  by (induction evs rule: rev_induct) (simp_all add: run_snoc listeners_step, simp add: run_def)

lemma changeStream_step: "changeStream (step s e m) = None \<Longrightarrow> changeStream m = None"
  by (cases e)
     (auto simp: waitUntilReady_def close_def closeStream_def Let_def snapshot_then_changeStream
        deliver_frame stream_close_resolved_def stream_close_rejected_def split: if_splits)

lemma changeStream_run: "changeStream (run s evs m) = None \<Longrightarrow> changeStream m = None"
proof (induction evs rule: rev_induct)
  case Nil
  then show ?case by (simp add: run_def)
next
  case (snoc e evs)
  then show ?case using changeStream_step [of s e "run s evs m"] by (simp add: run_snoc)
qed

lemma snapshot_rejected_step: "snapshot m = Rejected err \<Longrightarrow> snapshot (step s e m) = Rejected err"
  by (cases e)
     (simp_all add: waitUntilReady_def close_def closeStream_def Let_def
        deliver_frame stream_close_resolved_def stream_close_rejected_def)

lemma snapshot_rejected_run: "snapshot m = Rejected err \<Longrightarrow> snapshot (run s evs m) = Rejected err"
  by (induction evs rule: rev_induct) (simp_all add: run_snoc snapshot_rejected_step, simp add: run_def)

lemma constructedAt_step: "constructedAt (step s e m) = constructedAt m"
  by (cases e)
     (simp_all add: waitUntilReady_def close_def closeStream_def Let_def snapshot_then_frame
        deliver_frame stream_close_resolved_def stream_close_rejected_def)

lemma constructedAt_run: "constructedAt (run s evs m) = constructedAt m"
  by (induction evs rule: rev_induct) (simp_all add: run_snoc constructedAt_step, simp add: run_def)

section \<open>Listeners, closing and runs of change events\<close>

lemma run_Cons: "run s (e # evs) m = run s evs (step s e m)"
  by (simp add: run_def)

lemma closers_length_step: "length (closers m) \<le> length (closers (step s e m))"
  by (cases e)
     (simp_all add: waitUntilReady_def close_def closeStream_def Let_def snapshot_then_frame
        deliver_frame stream_close_resolved_def stream_close_rejected_def settle_length)

lemma closers_length_run: "length (closers m) \<le> length (closers (run s evs m))"
proof (induction evs rule: rev_induct)
  case Nil
  show ?case by (simp add: run_def)
next
  case (snoc e evs)
  then show ?case
    using closers_length_step [of "run s evs m" s e] by (simp add: run_snoc)
qed

lemma call_listeners_streamClosing_mono:
  "n \<in> set (streamClosing m) \<Longrightarrow>
   n \<in> set (streamClosing (foldl (\<lambda>m' l. call_listener l m') m ls))"
proof (induction ls arbitrary: m)
  case Nil
  then show ?case by simp
next
  case (Cons l ls)
  have "n \<in> set (streamClosing (call_listener l m))"
    using Cons.prems by (cases l) (simp_all add: closeStream_def)
  then show ?case using Cons.IH by simp
qed

lemma call_listeners_close_stream:
  "CloseStreamOnReady n \<in> set ls \<Longrightarrow>
   n \<in> set (streamClosing (foldl (\<lambda>m' l. call_listener l m') m ls))"
proof (induction ls arbitrary: m)
  case Nil
  then show ?case by simp
next
  case (Cons l ls)
  show ?case
  proof (cases "l = CloseStreamOnReady n")
    case True
    then have "n \<in> set (streamClosing (call_listener l m))"
      by (simp add: closeStream_def)
    then show ?thesis by (simp add: call_listeners_streamClosing_mono)
  next
    case False
    then have "CloseStreamOnReady n \<in> set ls" using Cons.prems by simp
    then show ?thesis using Cons.IH by simp
  qed
qed

lemma emit_close_stream:
  "(name, CloseStreamOnReady n) \<in> set (listeners m) \<Longrightarrow>
   n \<in> set (streamClosing (emit name args m))"
proof -
  assume a: "(name, CloseStreamOnReady n) \<in> set (listeners m)"
  have "CloseStreamOnReady n \<in> set (map snd (filter (\<lambda>nl. fst nl = name) (listeners m)))"
    using a by force
  then show ?thesis
    unfolding emit_def by (rule call_listeners_close_stream)
qed

lemma snapshot_then_close_stream:
  assumes "\<not> invalid m" and "(''ready'', CloseStreamOnReady n) \<in> set (listeners m)"
  shows "n \<in> set (streamClosing (snapshot_then s ds now m))"
proof -
  let ?m2 = "(foldl (load_doc s) m ds)
      \<lparr>changeStream := Some (buildChangeStream (Timestamp 0 (now div 1000 - 30)))\<rparr>"
  have v: "isValid ?m2"
    using assms(1) by (simp add: isValid_def load_docs_frame)
  have l: "(''ready'', CloseStreamOnReady n) \<in> set (listeners ?m2)"
    using assms(2) by (simp add: load_docs_frame)
  have "snapshot_then s ds now m = emit ''ready'' [AMirror] ?m2"
    using v by (simp add: snapshot_then_def Let_def doEmit_def)
  then show ?thesis using l by (simp add: emit_close_stream)
qed




section \<open>What the load has stored\<close>

lemma load_doc_store:
  "cache (load_doc s m d) = AList.update (cacheKey s d) (nextRef m) (cache m)"
  "heap (load_doc s m d) = (heap m)(nextRef m := d)"
  "nextRef (load_doc s m d) = Suc (nextRef m)"
  by (simp_all add: load_doc_def alloc_def setCachedValue_cache setCachedValue_frame)

lemma update_subset_insert: "set (AList.update k v al) \<subseteq> insert (k, v) (set al)"
  by (induction al) auto

lemma load_docs_content:
  assumes "cache m = []"
  shows "(\<forall>kr \<in> set (cache (foldl (load_doc s) m ds)).
            snd kr < nextRef (foldl (load_doc s) m ds)
            \<and> heap (foldl (load_doc s) m ds) (snd kr) \<in> set ds
            \<and> cacheKey s (heap (foldl (load_doc s) m ds) (snd kr)) = fst kr)
         \<and> (\<forall>d \<in> set ds. cacheKey s d \<in> fst ` set (cache (foldl (load_doc s) m ds)))"
proof (induction ds rule: rev_induct)
  case Nil
  show ?case using assms by simp
next
  case (snoc d ds)
  let ?m = "foldl (load_doc s) m ds"
  have old: "\<forall>kr \<in> set (cache ?m). snd kr < nextRef ?m \<and> heap ?m (snd kr) \<in> set ds
      \<and> cacheKey s (heap ?m (snd kr)) = fst kr"
    using snoc.IH by blast
  have keys: "\<forall>d' \<in> set ds. cacheKey s d' \<in> fst ` set (cache ?m)"
    using snoc.IH by blast
  have sub: "set (AList.update (cacheKey s d) (nextRef ?m) (cache ?m))
      \<subseteq> insert (cacheKey s d, nextRef ?m) (set (cache ?m))"
    by (rule update_subset_insert)
  have dom: "fst ` set (AList.update (cacheKey s d) (nextRef ?m) (cache ?m))
      = {cacheKey s d} \<union> fst ` set (cache ?m)"
    by (rule dom_update)
  have 1: "\<forall>kr \<in> set (cache (load_doc s ?m d)).
      snd kr < nextRef (load_doc s ?m d)
      \<and> heap (load_doc s ?m d) (snd kr) \<in> set (ds @ [d])
      \<and> cacheKey s (heap (load_doc s ?m d) (snd kr)) = fst kr"
  proof
    fix kr assume "kr \<in> set (cache (load_doc s ?m d))"
    then have "kr = (cacheKey s d, nextRef ?m) \<or> kr \<in> set (cache ?m)"
      using sub by (auto simp: load_doc_store)
    then show "snd kr < nextRef (load_doc s ?m d)
      \<and> heap (load_doc s ?m d) (snd kr) \<in> set (ds @ [d])
      \<and> cacheKey s (heap (load_doc s ?m d) (snd kr)) = fst kr"
      using old by (auto simp: load_doc_store)
  qed
  have 2: "\<forall>d' \<in> set (ds @ [d]). cacheKey s d' \<in> fst ` set (cache (load_doc s ?m d))"
    using keys dom by (auto simp: load_doc_store)
  from 1 2 show ?case by simp
qed

section \<open>The claims\<close>

subsection \<open>C1: a failed enumeration\<close>

text \<open>
  Claim C1, as the code has it: once the promise of the enumeration is rejected, the mirror
  never gets a change stream, \<open>isReady\<close> never holds, and the promise of every call of
  \<^verbatim>\<open>waitUntilReady()\<close>, made before or after the failure, stays pending whatever happens
  later. The constructor chains \<^verbatim>\<open>then\<close> only, and the promise of \<^verbatim>\<open>waitUntilReady\<close>
  never calls its \<^verbatim>\<open>reject\<close>.
\<close>

theorem snapshot_failure_waiters_stay_pending:
  "snapshot (run s evs (construct t0)) = Rejected err \<longrightarrow>
     changeStream (run s (evs @ later) (construct t0)) = None
     \<and> \<not> isReady (run s (evs @ later) (construct t0))
     \<and> list_all (\<lambda>p. p = Pending) (waiters (run s (evs @ later) (construct t0)))"
proof
  assume a: "snapshot (run s evs (construct t0)) = Rejected err"
  let ?m = "run s (evs @ later) (construct t0)"
  have "snapshot ?m = Rejected err"
    using a by (simp add: run_append snapshot_rejected_run)
  moreover have "init_inv ?m"
    by (simp add: init_inv_run init_inv_construct)
  ultimately have "changeStream ?m = None \<and> list_all (\<lambda>p. p = Pending) (waiters ?m)"
    by (auto simp: init_inv_def)
  then show "changeStream ?m = None \<and> \<not> isReady ?m \<and> list_all (\<lambda>p. p = Pending) (waiters ?m)"
    by (simp add: isReady_def)
qed

text \<open>The theorem at a run with a waiter before the failure and one after it.\<close>

theorem snapshot_failure_waiters_stay_pending_witness:
  "snapshot (run stringify_plain [CallWaitUntilReady, SnapshotRejected ''connection refused'']
      (construct 0)) = Rejected ''connection refused''
   \<and> waiters (run stringify_plain
      ([CallWaitUntilReady, SnapshotRejected ''connection refused'']
        @ [CallWaitUntilReady, SnapshotResolved [doc_abc] 5000])
      (construct 0)) = [Pending, Pending]
   \<and> list_all (\<lambda>p. p = Pending) (waiters (run stringify_plain
      ([CallWaitUntilReady, SnapshotRejected ''connection refused'']
        @ [CallWaitUntilReady, SnapshotResolved [doc_abc] 5000])
      (construct 0)))"
  using snapshot_failure_waiters_stay_pending [of stringify_plain "[CallWaitUntilReady, SnapshotRejected ''connection refused'']"
      0 "''connection refused''" "[CallWaitUntilReady, SnapshotResolved [doc_abc] 5000]"]
  by (simp add: eval_defs doc_abc_def)

text \<open>
  Against C1 as stated: a caller waits, the enumeration fails with an error, and the
  caller's promise is pending, not rejected; so is the promise of a second caller.
\<close>

theorem waitUntilReady_hangs_on_snapshot_failure:
  "waiters (run stringify_plain
      [CallWaitUntilReady, SnapshotRejected ''connection refused'', CallWaitUntilReady, CallClose]
      (construct 0)) = [Pending, Pending]"
  by (simp add: eval_defs)

subsection \<open>C6: invalidation and the notifications\<close>

text \<open>
  Claim C6: in every reachable state each notification was emitted while \<^verbatim>\<open>isValid()\<close>
  held, and \<^verbatim>\<open>'invalidated'\<close> has been emitted at most once. When the handler gets an
  invalidate event on a valid mirror, it emits \<^verbatim>\<open>'invalidated'\<close> with the mirror still valid
  and the mirror is invalid when the handler returns. Once the mirror is invalid it stays
  invalid and nothing more is ever emitted, whatever events arrive.
\<close>

theorem invalidated_emitted_once_while_valid:
  "list_all valid_at_emit (emitted (run s evs (construct t0)))
   \<and> length (filter (\<lambda>n. event_name n = ''invalidated'') (emitted (run s evs (construct t0)))) \<le> 1
   \<and> (\<not> invalid (run s evs (construct t0)) \<and> operationType c = ''invalidate'' \<longrightarrow>
        isValid (run s evs (construct t0))
        \<and> emitted (changeHandler s c (run s evs (construct t0))) =
            emitted (run s evs (construct t0))
              @ [\<lparr>event_name = ''invalidated'', event_args = [AMirror, AChange c],
                  valid_at_emit = True\<rparr>]
        \<and> \<not> isValid (changeHandler s c (run s evs (construct t0))))
   \<and> (invalid (run s evs (construct t0)) \<longrightarrow>
        invalid (run s (evs @ later) (construct t0))
        \<and> emitted (run s (evs @ later) (construct t0)) = emitted (run s evs (construct t0))
        \<and> emitted (changeHandler s c (run s evs (construct t0))) =
            emitted (run s evs (construct t0)))"
proof -
  let ?m = "run s evs (construct t0)"
  have inv: "emit_inv ?m"
    by (simp add: emit_inv_run emit_inv_construct)
  have 1: "list_all valid_at_emit (emitted ?m)"
    using inv by (simp add: emit_inv_def)
  have 2: "length (filter (\<lambda>n. event_name n = ''invalidated'') (emitted ?m)) \<le> 1"
    using inv by (simp add: emit_inv_def)
  have 3: "\<not> invalid ?m \<and> operationType c = ''invalidate'' \<longrightarrow>
        isValid ?m
        \<and> emitted (changeHandler s c ?m) =
            emitted ?m @ [\<lparr>event_name = ''invalidated'', event_args = [AMirror, AChange c],
                  valid_at_emit = True\<rparr>]
        \<and> \<not> isValid (changeHandler s c ?m)"
    by (simp add: isValid_def changeHandler_emitted changeHandler_invalid)
  have 4: "invalid ?m \<longrightarrow>
        invalid (run s (evs @ later) (construct t0))
        \<and> emitted (run s (evs @ later) (construct t0)) = emitted ?m
        \<and> emitted (changeHandler s c ?m) = emitted ?m"
    by (simp add: run_append invalid_run changeHandler_emitted)
  from 1 2 3 4 show ?thesis by blast
qed

text \<open>
  The theorem on a loaded mirror that gets an invalidate event, and on the invalid mirror
  that then gets an insert, a second invalidate event and a call.
\<close>

theorem invalidated_emitted_once_while_valid_witness:
  "\<not> invalid (run stringify_plain [SnapshotResolved [doc_abc] 5000] (construct 0))
   \<and> operationType ref_invalidate = ''invalidate''
   \<and> map event_name (emitted (changeHandler stringify_plain ref_invalidate
         (run stringify_plain [SnapshotResolved [doc_abc] 5000] (construct 0))))
       = [''changed'', ''ready'', ''invalidated'']
   \<and> invalid (run stringify_plain [SnapshotResolved [doc_abc] 5000, FeedChange ev_invalidate]
         (construct 0))
   \<and> map event_name (emitted (run stringify_plain
         ([SnapshotResolved [doc_abc] 5000, FeedChange ev_invalidate]
            @ [FeedChange ev_insert_abc, FeedChange ev_invalidate, CallWaitUntilReady])
         (construct 0)))
       = [''changed'', ''ready'', ''invalidated'']"
  using invalidated_emitted_once_while_valid [of stringify_plain "[SnapshotResolved [doc_abc] 5000]" 0 ref_invalidate "[]"]
    invalidated_emitted_once_while_valid [of stringify_plain "[SnapshotResolved [doc_abc] 5000, FeedChange ev_invalidate]" 0
      ref_invalidate "[FeedChange ev_insert_abc, FeedChange ev_invalidate, CallWaitUntilReady]"]
  by (simp add: eval_defs doc_abc_def ev_insert_abc_def ev_invalidate_def ref_invalidate_def)

subsection \<open>C10: \<^verbatim>\<open>find\<close> before the mirror is ready\<close>

text \<open>
  Claim C10: \<^verbatim>\<open>find\<close> called while the mirror is initializing returns a value, not an
  error, and the value is the matches among the documents stored so far. Right after
  construction, and in every reachable state in which the enumeration has not been
  fulfilled, the mirror is not ready and \<^verbatim>\<open>find\<close> returns the empty array. Inside the
  callback that loads the enumerated documents, when the first \<open>k\<close> of them have been stored
  (where a listener on \<^verbatim>\<open>'changed'\<close> runs), the mirror is still not ready and \<^verbatim>\<open>find\<close>
  returns the cached references whose documents match; every cached document is one of
  those \<open>k\<close> documents under its own key, and each of the \<open>k\<close> keys is cached.
\<close>

theorem find_while_initializing:
  "find_mirror sift q (construct t0) = Inr []
   \<and> (snapshot (run s evs (construct t0)) \<noteq> Fulfilled \<longrightarrow>
        \<not> isReady (run s evs (construct t0))
        \<and> find_mirror sift q (run s evs (construct t0)) = Inr [])
   \<and> (snapshot (run s evs (construct t0)) = Pending \<longrightarrow>
        step s (SnapshotResolved docs now) (run s evs (construct t0)) =
          doEmit ''ready'' [AMirror]
            ((load_state s ((run s evs (construct t0))\<lparr>snapshot := Fulfilled\<rparr>) docs (length docs))
               \<lparr>changeStream := Some (buildChangeStream (Timestamp 0 (now div 1000 - 30)))\<rparr>)
        \<and> \<not> isReady (load_state s ((run s evs (construct t0))\<lparr>snapshot := Fulfilled\<rparr>) docs k)
        \<and> find_mirror sift q
            (load_state s ((run s evs (construct t0))\<lparr>snapshot := Fulfilled\<rparr>) docs k) =
          Inr (filter
                (\<lambda>r. sift q
                  (heap (load_state s ((run s evs (construct t0))\<lparr>snapshot := Fulfilled\<rparr>) docs k) r))
                (map snd
                  (cache (load_state s ((run s evs (construct t0))\<lparr>snapshot := Fulfilled\<rparr>) docs k))))
        \<and> (\<forall>kr \<in> set (cache
                (load_state s ((run s evs (construct t0))\<lparr>snapshot := Fulfilled\<rparr>) docs k)).
              heap (load_state s ((run s evs (construct t0))\<lparr>snapshot := Fulfilled\<rparr>) docs k)
                  (snd kr) \<in> set (take k docs)
              \<and> cacheKey s
                  (heap (load_state s ((run s evs (construct t0))\<lparr>snapshot := Fulfilled\<rparr>) docs k)
                    (snd kr)) = fst kr)
        \<and> (\<forall>d \<in> set (take k docs).
              cacheKey s d \<in> fst ` set (cache
                (load_state s ((run s evs (construct t0))\<lparr>snapshot := Fulfilled\<rparr>) docs k))))"
proof -
  let ?m = "run s evs (construct t0)"
  let ?n = "?m\<lparr>snapshot := Fulfilled\<rparr>"
  let ?l = "load_state s ?n docs k"
  have inv: "init_inv ?m"
    by (simp add: init_inv_run init_inv_construct)
  have a: "find_mirror sift q (construct t0) = Inr []"
    by (simp add: find_mirror_def assertState_def construct_def)
  have b: "snapshot ?m \<noteq> Fulfilled \<longrightarrow> \<not> isReady ?m \<and> find_mirror sift q ?m = Inr []"
    using inv by (auto simp: init_inv_def isReady_def find_mirror_def assertState_def)
  have c: "snapshot ?m = Pending \<longrightarrow>
        step s (SnapshotResolved docs now) ?m =
          doEmit ''ready'' [AMirror]
            ((load_state s ?n docs (length docs))
               \<lparr>changeStream := Some (buildChangeStream (Timestamp 0 (now div 1000 - 30)))\<rparr>)
        \<and> \<not> isReady ?l
        \<and> find_mirror sift q ?l = Inr (filter (\<lambda>r. sift q (heap ?l r)) (map snd (cache ?l)))
        \<and> (\<forall>kr \<in> set (cache ?l). heap ?l (snd kr) \<in> set (take k docs)
              \<and> cacheKey s (heap ?l (snd kr)) = fst kr)
        \<and> (\<forall>d \<in> set (take k docs). cacheKey s d \<in> fst ` set (cache ?l))"
  proof
    assume p: "snapshot ?m = Pending"
    then have none: "changeStream ?m = None"
      using inv by (auto simp: init_inv_def)
    then have flags: "\<not> invalid ?m \<and> \<not> closed ?m \<and> cache ?m = []"
      using inv by (simp add: init_inv_def)
    have 1: "step s (SnapshotResolved docs now) ?m =
          doEmit ''ready'' [AMirror]
            ((load_state s ?n docs (length docs))
               \<lparr>changeStream := Some (buildChangeStream (Timestamp 0 (now div 1000 - 30)))\<rparr>)"
      using p by (simp add: snapshot_then_def load_state_def Let_def)
    have fr: "changeStream ?l = None \<and> \<not> invalid ?l \<and> \<not> closed ?l"
      using none flags by (simp add: load_state_def load_docs_frame)
    have 2: "\<not> isReady ?l"
      using fr by (simp add: isReady_def)
    have 3: "find_mirror sift q ?l = Inr (filter (\<lambda>r. sift q (heap ?l r)) (map snd (cache ?l)))"
      using fr by (simp add: find_mirror_def assertState_def)
    have "cache ?n = []"
      using flags by simp
    from load_docs_content [OF this, of s "take k docs"]
    have 4: "(\<forall>kr \<in> set (cache ?l). heap ?l (snd kr) \<in> set (take k docs)
              \<and> cacheKey s (heap ?l (snd kr)) = fst kr)
        \<and> (\<forall>d \<in> set (take k docs). cacheKey s d \<in> fst ` set (cache ?l))"
      unfolding load_state_def by blast
    note vals = 4 [THEN conjunct1] and keys = 4 [THEN conjunct2]
    from 1 2 3 vals keys show "step s (SnapshotResolved docs now) ?m =
          doEmit ''ready'' [AMirror]
            ((load_state s ?n docs (length docs))
               \<lparr>changeStream := Some (buildChangeStream (Timestamp 0 (now div 1000 - 30)))\<rparr>)
        \<and> \<not> isReady ?l
        \<and> find_mirror sift q ?l = Inr (filter (\<lambda>r. sift q (heap ?l r)) (map snd (cache ?l)))
        \<and> (\<forall>kr \<in> set (cache ?l). heap ?l (snd kr) \<in> set (take k docs)
              \<and> cacheKey s (heap ?l (snd kr)) = fst kr)
        \<and> (\<forall>d \<in> set (take k docs). cacheKey s d \<in> fst ` set (cache ?l))"
      by (intro conjI)
  qed
  from a b c show ?thesis by (intro conjI)
qed

text \<open>
  The theorem on a mirror with a waiter and a deferred close: before the enumeration
  completes \<^verbatim>\<open>find\<close> returns nothing, and with the first of two documents stored it returns
  that document.
\<close>

theorem find_while_initializing_witness:
  "snapshot (run stringify_plain [CallWaitUntilReady, CallClose] (construct 0)) = Pending
   \<and> find_mirror (\<lambda>q d. True) () (run stringify_plain [CallWaitUntilReady, CallClose] (construct 0))
       = Inr []
   \<and> map snd (cache (load_state stringify_plain
        ((run stringify_plain [CallWaitUntilReady, CallClose] (construct 0))\<lparr>snapshot := Fulfilled\<rparr>)
        [doc_abc, doc_def] 1)) = [0]
   \<and> \<not> isReady (load_state stringify_plain
        ((run stringify_plain [CallWaitUntilReady, CallClose] (construct 0))\<lparr>snapshot := Fulfilled\<rparr>)
        [doc_abc, doc_def] 1)
   \<and> find_mirror (\<lambda>q d. True) () (load_state stringify_plain
        ((run stringify_plain [CallWaitUntilReady, CallClose] (construct 0))\<lparr>snapshot := Fulfilled\<rparr>)
        [doc_abc, doc_def] 1) = Inr [0]"
proof -
  let ?m = "run stringify_plain [CallWaitUntilReady, CallClose] (construct 0) :: string mirror"
  let ?l = "load_state stringify_plain (?m\<lparr>snapshot := Fulfilled\<rparr>) [doc_abc, doc_def] 1"
  have p: "snapshot ?m = Pending"
    by (simp add: eval_defs)
  have nf: "snapshot ?m \<noteq> Fulfilled"
    using p by simp
  have c: "map snd (cache ?l) = [0]"
    by (simp add: eval_defs load_state_def doc_abc_def doc_def_def)
  note t = find_while_initializing [of "\<lambda>q d. True" "()" 0 stringify_plain "[CallWaitUntilReady, CallClose]"
      "[doc_abc, doc_def]" 5000 1]
  have r1: "find_mirror (\<lambda>q d. True) () ?m = Inr []"
    using t [THEN conjunct2, THEN conjunct1, THEN mp, OF nf] by (rule conjunct2)
  note u = t [THEN conjunct2, THEN conjunct2, THEN mp, OF p]
  have r2: "\<not> isReady ?l"
    using u by (rule conjunct1 [OF conjunct2])
  have r3: "find_mirror (\<lambda>q d. True) () ?l = Inr [0]"
    using u [THEN conjunct2, THEN conjunct2, THEN conjunct1] by (simp only: c filter.simps if_True)
  from p r1 c r2 r3 show ?thesis by (intro conjI)
qed

subsection \<open>C7: where the feed starts\<close>

text \<open>
  Claim C7, as the code has it: the stream is opened when the enumeration has completed,
  at the wall-clock time of that moment in whole seconds minus 30 seconds
  (\<^verbatim>\<open>Date.now()\<close> is read inside the \<^verbatim>\<open>then\<close> callback). That start is no later than the
  moment the enumeration was issued when the enumeration took at most 30 seconds, and
  later than it when the enumeration took 31 seconds or longer.
\<close>

theorem feed_start_from_completion_time:
  "snapshot (run s evs (construct t0)) = Pending \<longrightarrow>
     changeStream (step s (SnapshotResolved docs now) (run s evs (construct t0))) =
       Some (buildChangeStream (Timestamp 0 (now div 1000 - 30)))
     \<and> feed_start_ms (step s (SnapshotResolved docs now) (run s evs (construct t0))) =
         Some ((now div 1000 - 30) * 1000)
     \<and> (now - t0 \<le> 30000 \<longrightarrow>
          feed_starts_before_enumeration
            (step s (SnapshotResolved docs now) (run s evs (construct t0))))
     \<and> (31000 \<le> now - t0 \<longrightarrow>
          \<not> feed_starts_before_enumeration
            (step s (SnapshotResolved docs now) (run s evs (construct t0))))"
proof
  let ?m = "run s evs (construct t0)"
  let ?m' = "step s (SnapshotResolved docs now) ?m"
  assume p: "snapshot ?m = Pending"
  have cs: "changeStream ?m' = Some (buildChangeStream (Timestamp 0 (now div 1000 - 30)))"
    using p by (simp add: snapshot_then_changeStream)
  have t: "constructedAt ?m' = t0"
    by (simp only: constructedAt_step constructedAt_run) (simp add: construct_def)
  have f: "feed_start_ms ?m' = Some ((now div 1000 - 30) * 1000)"
    using cs by (simp add: feed_start_ms_def buildChangeStream_def)
  have d: "now div 1000 * 1000 + now mod 1000 = now"
    by (rule div_mult_mod_eq)
  have lo: "0 \<le> now mod 1000" and hi: "now mod 1000 < 1000"
    by simp_all
  have le: "now div 1000 * 1000 \<le> now"
    using d lo by linarith
  have gt: "now < now div 1000 * 1000 + 1000"
    using d hi by linarith
  have a: "now - t0 \<le> 30000 \<longrightarrow> feed_starts_before_enumeration ?m'"
    unfolding feed_starts_before_enumeration_def f t using le by simp
  have b: "31000 \<le> now - t0 \<longrightarrow> \<not> feed_starts_before_enumeration ?m'"
    unfolding feed_starts_before_enumeration_def f t using gt by simp
  from cs f a b
  show "changeStream ?m' = Some (buildChangeStream (Timestamp 0 (now div 1000 - 30)))
     \<and> feed_start_ms ?m' = Some ((now div 1000 - 30) * 1000)
     \<and> (now - t0 \<le> 30000 \<longrightarrow> feed_starts_before_enumeration ?m')
     \<and> (31000 \<le> now - t0 \<longrightarrow> \<not> feed_starts_before_enumeration ?m')"
    by blast
qed

text \<open>
  The theorem for an enumeration that takes two and a half seconds, and for one that takes
  a hundred.
\<close>

theorem feed_start_from_completion_time_witness:
  "snapshot (run stringify_plain [CallWaitUntilReady] (construct 1000000)) = Pending
   \<and> 1002500 - 1000000 \<le> (30000::int)
   \<and> feed_start_ms (step stringify_plain (SnapshotResolved [doc_abc] 1002500)
        (run stringify_plain [CallWaitUntilReady] (construct 1000000))) = Some 972000
   \<and> feed_starts_before_enumeration (step stringify_plain (SnapshotResolved [doc_abc] 1002500)
        (run stringify_plain [CallWaitUntilReady] (construct 1000000)))
   \<and> (31000::int) \<le> 1100000 - 1000000
   \<and> feed_start_ms (step stringify_plain (SnapshotResolved [doc_abc] 1100000)
        (run stringify_plain [CallWaitUntilReady] (construct 1000000))) = Some 1070000
   \<and> \<not> feed_starts_before_enumeration (step stringify_plain (SnapshotResolved [doc_abc] 1100000)
        (run stringify_plain [CallWaitUntilReady] (construct 1000000)))"
  using feed_start_from_completion_time
      [of stringify_plain "[CallWaitUntilReady]" 1000000 "[doc_abc]" 1002500]
    feed_start_from_completion_time
      [of stringify_plain "[CallWaitUntilReady]" 1000000 "[doc_abc]" 1100000]
  by (simp add: eval_defs doc_abc_def feed_start_ms_def feed_starts_before_enumeration_def)

text \<open>
  Against C7 as stated: the enumeration is issued at second 1000 and completes at second
  1100; the feed starts at second 1070, after the enumeration was issued.
\<close>

theorem feed_start_after_enumeration_request:
  "\<not> feed_starts_before_enumeration
        (run stringify_plain [SnapshotResolved [] 1100000] (construct 1000000))"
  by (simp add: eval_defs feed_start_ms_def feed_starts_before_enumeration_def)

subsection \<open>C8: closing before the mirror is ready\<close>

text \<open>
  Claim C8: \<^verbatim>\<open>close()\<close> is called before the change stream exists, as call number \<open>n\<close>.
  As long as the stream does not exist, \<^verbatim>\<open>stream.close()\<close> has not been called for it,
  nothing has been released, the promise \<^verbatim>\<open>close()\<close> returned is pending and \<^verbatim>\<open>isClosed()\<close>
  does not hold. When the enumeration then completes, \<^verbatim>\<open>stream.close()\<close> is called in the
  same callback, with the promise still pending and \<^verbatim>\<open>isClosed()\<close> still false; when that
  call is settled by the driver, the subscription is released, the promise is fulfilled
  and \<^verbatim>\<open>isClosed()\<close> holds. In every later state, \<^verbatim>\<open>isClosed()\<close> or a fulfilled promise
  of that call means the subscription has been released. Change events come from the
  stream, so none is handled before the stream exists.
\<close>

theorem close_before_ready_is_deferred:
  "let m1 = run s evs (construct t0);
       n = length (closers m1);
       m2 = run s later (close m1);
       m3 = step s (SnapshotResolved docs now) m2;
       m4 = step s (StreamCloseResolved n) m3
   in changeStream m1 = None \<longrightarrow>
        n < length (closers m2)
      \<and> (changeStream m2 = None \<longrightarrow>
           n \<notin> set (streamClosing m2) \<and> \<not> released m2
           \<and> closers m2 ! n = Pending \<and> \<not> isClosed m2)
      \<and> (changeStream m2 = None \<and> snapshot m2 = Pending \<longrightarrow>
           n \<in> set (streamClosing m3) \<and> \<not> released m3
           \<and> closers m3 ! n = Pending \<and> \<not> isClosed m3
           \<and> released m4 \<and> closers m4 ! n = Fulfilled \<and> isClosed m4)
      \<and> (isClosed m2 \<longrightarrow> released m2)
      \<and> (closers m2 ! n = Fulfilled \<longrightarrow> released m2)"
proof -
  define m1 where "m1 = run s evs (construct t0)"
  define n where "n = length (closers m1)"
  define m2 where "m2 = run s later (close m1)"
  define m3 where "m3 = step s (SnapshotResolved docs now) m2"
  define m4 where "m4 = step s (StreamCloseResolved n) m3"
  have reach: "m2 = run s (evs @ CallClose # later) (construct t0)"
    by (simp add: m2_def m1_def run_append run_Cons)
  have ii: "init_inv m2"
    unfolding reach by (simp add: init_inv_run init_inv_construct)
  have ci: "close_inv m2"
    unfolding reach by (simp add: close_inv_run close_inv_construct)
  have "length (closers (close m1)) = Suc n"
    by (simp add: close_def Let_def closeStream_def n_def)
  then have len: "n < length (closers m2)"
    using closers_length_run [of "close m1" s later] by (simp add: m2_def)
  have safe: "(isClosed m2 \<longrightarrow> released m2) \<and> (closers m2 ! n = Fulfilled \<longrightarrow> released m2)"
    using ci len by (simp add: close_inv_def isClosed_def)
  have pend: "changeStream m2 = None \<longrightarrow>
      \<not> invalid m2 \<and> streamClosing m2 = [] \<and> \<not> released m2
      \<and> closers m2 ! n = Pending \<and> \<not> closed m2"
    using ii len by (auto simp: init_inv_def list_all_length)
  have deferred: "changeStream m2 = None \<longrightarrow>
      n \<notin> set (streamClosing m2) \<and> \<not> released m2
      \<and> closers m2 ! n = Pending \<and> \<not> isClosed m2"
    using pend by (simp add: isClosed_def)
  have performed: "changeStream m2 = None \<and> snapshot m2 = Pending \<longrightarrow>
      n \<in> set (streamClosing m3) \<and> \<not> released m3
      \<and> closers m3 ! n = Pending \<and> \<not> isClosed m3
      \<and> released m4 \<and> closers m4 ! n = Fulfilled \<and> isClosed m4"
    if before: "changeStream m1 = None"
  proof
    assume a: "changeStream m2 = None \<and> snapshot m2 = Pending"
    have "(''ready'', CloseStreamOnReady n) \<in> set (listeners (close m1))"
      using before by (simp add: close_def Let_def n_def)
    then have l: "(''ready'', CloseStreamOnReady n) \<in> set (listeners m2)"
      by (simp add: m2_def listeners_run)
    have m3: "m3 = snapshot_then s docs now (m2\<lparr>snapshot := Fulfilled\<rparr>)"
      using a by (simp add: m3_def)
    have s3: "n \<in> set (streamClosing m3)"
      unfolding m3 using l a pend by (intro snapshot_then_close_stream) simp_all
    have f3: "\<not> released m3 \<and> closers m3 = closers m2 \<and> \<not> closed m3"
      using a pend by (simp add: m3 snapshot_then_frame)
    have m4: "m4 = stream_close_resolved n m3"
      using s3 by (simp add: m4_def)
    have "released m4 \<and> closers m4 ! n = Fulfilled \<and> closed m4"
      using f3 a pend len by (simp add: m4 stream_close_resolved_def settle_nth)
    then show "n \<in> set (streamClosing m3) \<and> \<not> released m3
      \<and> closers m3 ! n = Pending \<and> \<not> isClosed m3
      \<and> released m4 \<and> closers m4 ! n = Fulfilled \<and> isClosed m4"
      using s3 f3 a pend by (simp add: isClosed_def)
  qed
  have "changeStream m1 = None \<longrightarrow>
        n < length (closers m2)
      \<and> (changeStream m2 = None \<longrightarrow>
           n \<notin> set (streamClosing m2) \<and> \<not> released m2
           \<and> closers m2 ! n = Pending \<and> \<not> isClosed m2)
      \<and> (changeStream m2 = None \<and> snapshot m2 = Pending \<longrightarrow>
           n \<in> set (streamClosing m3) \<and> \<not> released m3
           \<and> closers m3 ! n = Pending \<and> \<not> isClosed m3
           \<and> released m4 \<and> closers m4 ! n = Fulfilled \<and> isClosed m4)
      \<and> (isClosed m2 \<longrightarrow> released m2)
      \<and> (closers m2 ! n = Fulfilled \<longrightarrow> released m2)"
    using len safe deferred performed by blast
  then show ?thesis
    unfolding Let_def m1_def [symmetric] n_def [symmetric] m2_def [symmetric]
      m3_def [symmetric] m4_def [symmetric] .
qed

text \<open>
  The theorem on a mirror with a waiter that is closed before it is ready, while it waits,
  when the enumeration completes and the driver releases the stream.
\<close>

theorem close_before_ready_is_deferred_witness:
  "changeStream (run stringify_plain [CallWaitUntilReady] (construct 0)) = None
   \<and> changeStream (run stringify_plain [CallWaitUntilReady]
         (close (run stringify_plain [CallWaitUntilReady] (construct 0)))) = None
   \<and> snapshot (run stringify_plain [CallWaitUntilReady]
         (close (run stringify_plain [CallWaitUntilReady] (construct 0)))) = Pending
   \<and> \<not> isClosed (run stringify_plain [CallWaitUntilReady]
         (close (run stringify_plain [CallWaitUntilReady] (construct 0))))
   \<and> 0 \<in> set (streamClosing (step stringify_plain (SnapshotResolved [doc_abc] 5000)
         (run stringify_plain [CallWaitUntilReady]
           (close (run stringify_plain [CallWaitUntilReady] (construct 0))))))
   \<and> isClosed (step stringify_plain (StreamCloseResolved 0)
         (step stringify_plain (SnapshotResolved [doc_abc] 5000)
           (run stringify_plain [CallWaitUntilReady]
             (close (run stringify_plain [CallWaitUntilReady] (construct 0))))))
   \<and> isClosed (run stringify_plain [SnapshotResolved [doc_abc] 5000, StreamCloseResolved 0]
         (close (run stringify_plain [CallWaitUntilReady] (construct 0))))
   \<and> released (run stringify_plain [SnapshotResolved [doc_abc] 5000, StreamCloseResolved 0]
         (close (run stringify_plain [CallWaitUntilReady] (construct 0))))"
proof -
  let ?m1 = "run stringify_plain [CallWaitUntilReady] (construct 0) :: string mirror"
  let ?m2 = "run stringify_plain [CallWaitUntilReady] (close ?m1)"
  let ?m2' = "run stringify_plain [SnapshotResolved [doc_abc] 5000, StreamCloseResolved 0]
     (close ?m1)"
  have n: "length (closers ?m1) = 0"
    by (simp add: eval_defs doc_abc_def isClosed_def)
  have h1: "changeStream ?m1 = None"
    by (simp add: eval_defs doc_abc_def isClosed_def)
  have h2: "changeStream ?m2 = None" and h3: "snapshot ?m2 = Pending"
    by (simp_all add: eval_defs doc_abc_def isClosed_def)
  have h4: "isClosed ?m2'"
    by (simp add: eval_defs doc_abc_def isClosed_def)
  note a = close_before_ready_is_deferred [of stringify_plain "[CallWaitUntilReady]" 0 "[CallWaitUntilReady]"
      "[doc_abc]" 5000, unfolded Let_def n]
  note b = close_before_ready_is_deferred [of stringify_plain "[CallWaitUntilReady]" 0
      "[SnapshotResolved [doc_abc] 5000, StreamCloseResolved 0]" "[]" 0, unfolded Let_def n]
  from a b h1 h2 h3 h4 show ?thesis by blast
qed

subsection \<open>C2: applying a change event\<close>




subsection \<open>C3: what \<^verbatim>\<open>find\<close> and \<^verbatim>\<open>get\<close> return\<close>

text \<open>
  Claim C3 fails on the code: the reference \<^verbatim>\<open>get\<close> returns is the one the cache holds, and
  so is every reference \<^verbatim>\<open>find\<close> returns; when the caller changes the object, \<^verbatim>\<open>get\<close> returns
  the changed object. No copy is made.
\<close>

theorem get_and_find_return_cached_references:
  "(get_mirror s key m = Inr r \<longrightarrow>
      map_of (cache m) (s key) = Some r
      \<and> get_mirror s key (mutate r d m) = Inr r
      \<and> heap (mutate r d m) r = d)
   \<and> (find_mirror sift q m = Inr rs \<longrightarrow> set rs \<subseteq> snd ` set (cache m))"
  by (auto simp: get_mirror_def find_mirror_def mutate_def Let_def
           split: option.splits sum.splits)

text \<open>
  On a mirror loaded with the README's document: the caller changes the document it got, and
  a later \<^verbatim>\<open>find\<close> for the old value of the field finds nothing.
\<close>

theorem get_and_find_return_cached_references_witness:
  "get_mirror stringify_plain (JStr ''abc'')
      (run stringify_plain [SnapshotResolved [doc_abc] 5000] (construct 0)) = Inr 0
   \<and> find_mirror (\<lambda>q d. field ''foo'' d = q) (JStr ''bar'')
      (run stringify_plain [SnapshotResolved [doc_abc] 5000] (construct 0)) = Inr [0]
   \<and> map_of (cache (run stringify_plain [SnapshotResolved [doc_abc] 5000] (construct 0)))
      (stringify_plain (JStr ''abc'')) = Some 0
   \<and> heap (run stringify_plain [SnapshotResolved [doc_abc] 5000] (construct 0)) 0 = doc_abc
   \<and> heap (mutate 0 doc_abc2
        (run stringify_plain [SnapshotResolved [doc_abc] 5000] (construct 0))) 0 = doc_abc2
   \<and> find_mirror (\<lambda>q d. field ''foo'' d = q) (JStr ''bar'')
        (mutate 0 doc_abc2
          (run stringify_plain [SnapshotResolved [doc_abc] 5000] (construct 0))) = Inr []"
  using get_and_find_return_cached_references [of stringify_plain "JStr ''abc''"
      "run stringify_plain [SnapshotResolved [doc_abc] 5000] (construct 0)" 0 doc_abc2
      "\<lambda>q d. field ''foo'' d = q" "JStr ''bar''" "[0]"]
  by (simp add: eval_defs doc_abc_def doc_abc2_def get_mirror_def find_mirror_def assertState_def mutate_def)

subsection \<open>C4: queries on an invalid or closed mirror\<close>

text \<open>
  Claim C4 holds of \<^verbatim>\<open>find\<close> and fails of \<^verbatim>\<open>get\<close>: \<^verbatim>\<open>find\<close> fails with the invalid-collection
  error on an invalid mirror, closed or not, and with the closed error on a valid closed
  one; \<^verbatim>\<open>get\<close> never looks at the flags. After the collection is invalidated, and after the
  mirror is closed, \<^verbatim>\<open>get\<close> still returns the cached document, or fails with the not-found
  error.
\<close>

theorem get_skips_assertState:
  "get_mirror s key (m\<lparr>invalid := i, closed := c\<rparr>) = get_mirror s key m
   \<and> find_mirror sift q (m\<lparr>invalid := True, closed := c\<rparr>) = Inl CollectionNoLongerValid
   \<and> find_mirror sift q (m\<lparr>invalid := False, closed := True\<rparr>) = Inl MirrorClosed
   \<and> invalid (run stringify_plain
        [SnapshotResolved [doc_abc] 5000, FeedChange ev_invalidate] (construct 0))
   \<and> get_mirror stringify_plain (JStr ''abc'') (run stringify_plain
        [SnapshotResolved [doc_abc] 5000, FeedChange ev_invalidate] (construct 0)) = Inr 0
   \<and> get_mirror stringify_plain (JStr ''ghi'') (run stringify_plain
        [SnapshotResolved [doc_abc] 5000, FeedChange ev_invalidate] (construct 0))
       = Inl (NoSuchKey (stringify_plain (JStr ''ghi'')))
   \<and> isClosed (run stringify_plain
        [SnapshotResolved [doc_abc] 5000, CallClose, StreamCloseResolved 0] (construct 0))
   \<and> get_mirror stringify_plain (JStr ''abc'') (run stringify_plain
        [SnapshotResolved [doc_abc] 5000, CallClose, StreamCloseResolved 0] (construct 0)) = Inr 0"
  by (simp add: eval_defs doc_abc_def ev_invalidate_def get_mirror_def find_mirror_def assertState_def isClosed_def)

subsection \<open>C5: \<^verbatim>\<open>has\<close>\<close>

text \<open>
  Claim C5 fails on the code: neither the class nor \<^verbatim>\<open>EventEmitter\<close> defines a method
  named \<^verbatim>\<open>has\<close>, so calling it throws a \<^verbatim>\<open>TypeError\<close>.
\<close>

theorem has_is_not_a_method:
  "''has'' \<notin> set own_methods \<and> ''has'' \<notin> set EventEmitter_methods
   \<and> lookup_method ''has'' = Inl (TypeError ''has is not a function'')"
  by (simp add: own_methods_def EventEmitter_methods_def lookup_method_def)

subsection \<open>C9: what the notifications carry\<close>

text \<open>
  Claim C9 fails on the code for \<^verbatim>\<open>'changed'\<close>: \<^verbatim>\<open>setCachedValue\<close> emits it with
  \<^verbatim>\<open>undefined\<close> where the mirror is claimed, followed by the key. \<^verbatim>\<open>'ready'\<close> carries the
  mirror, \<^verbatim>\<open>'invalidated'\<close> the mirror and the change event.
\<close>

theorem changed_passes_undefined_for_mirror:
  "emitted (setCachedValue s keyDoc doc m) =
     (if isValid m
      then emitted m @ [\<lparr>event_name = ''changed'',
             event_args = [AUndefined, AKey (cacheKey s keyDoc)], valid_at_emit = True\<rparr>]
      else emitted m)
   \<and> map event_args (emitted (run stringify_plain
        [SnapshotResolved [] 5000, FeedChange ev_insert_abc, FeedChange ev_invalidate]
        (construct 0)))
      = [[AMirror], [AUndefined, AKey (stringify_plain (JStr ''abc''))],
         [AMirror, AChange ref_invalidate]]"
proof -
  have a: "emitted (setCachedValue s keyDoc doc m) =
     (if isValid m
      then emitted m @ [\<lparr>event_name = ''changed'',
             event_args = [AUndefined, AKey (cacheKey s keyDoc)], valid_at_emit = True\<rparr>]
      else emitted m)"
    by (simp add: setCachedValue_emitted isValid_def)
  have b: "map event_args (emitted (run stringify_plain
        [SnapshotResolved [] 5000, FeedChange ev_insert_abc, FeedChange ev_invalidate]
        (construct 0)))
      = [[AMirror], [AUndefined, AKey (stringify_plain (JStr ''abc''))],
         [AMirror, AChange ref_invalidate]]"
    by (simp add: eval_defs doc_abc_def ev_insert_abc_def ev_invalidate_def ref_invalidate_def)
  from a b show ?thesis by (rule conjI)
qed

end
